theory Spec2Isabelle
  imports Complex_Main
begin

section \<open>JavaScript values used by the recorder and the viewer\<close>

text \<open>
  JavaScript numbers are modelled as \<^typ>\<open>real\<close> where the source computes with
  fractions (scale, sample positions of the viewport) and as \<^typ>\<open>int\<close> or
  \<^typ>\<open>nat\<close> where it counts (array lengths, requested sample indices). A
  \<open>Float32Array\<close> and the single channel of an \<open>AudioBuffer\<close> are lists of samples.
  An absent argument (\<open>undefined\<close>) is \<open>None\<close>. Exceptions are values of
  \<open>js_error\<close>. The rounding of floating-point arithmetic, infinities and NaN are
  not modelled; where the source divides by the scale, the theorems ask for a
  positive scale, which the viewer's initial value and the clamp in \<open>zoom\<close> keep.
\<close>

type_synonym samples = "real list"

datatype js_error = TypeError | NotSupportedError

text \<open>
  \<open>acx.createBuffer(1, length, sampleRate)\<close> of the Web Audio API: a zero-filled buffer
  of \<open>length\<close> frames. The parameter is a 32-bit unsigned integer: a length from
  \<open>1\<close> to \<open>2 ^ 32 - 1\<close> is taken as it is. The length \<open>0\<close> is rejected with
  \<open>NotSupportedError\<close>. A negative length is rejected too; the class of that
  exception differs between runtimes, and the theorems of the claims say only that
  the call throws. A length of \<open>2 ^ 32\<close> or more does not fit the parameter, and a
  runtime throws or wraps it; it is rejected here, and the theorems of the claims
  state a result only for lengths of a magnitude below \<open>2 ^ 32\<close>.
\<close>

definition frames_limit :: int where
  "frames_limit = 2 ^ 32"

definition createBuffer :: "int \<Rightarrow> js_error + samples" where
  "createBuffer n =
     (if n \<le> 0 \<or> frames_limit \<le> n then Inl NotSupportedError else Inr (replicate (nat n) 0))"

text \<open>
  \<open>buf.copyToChannel(source, 0, startInChannel)\<close>: writes \<open>source\<close> into the buffer
  from frame \<open>startInChannel\<close> on; what does not fit is not copied.
\<close>

definition copyToChannel :: "samples \<Rightarrow> samples \<Rightarrow> nat \<Rightarrow> samples" where
  "copyToChannel buf source k =
     take k buf @ take (length buf - k) source @ drop (k + length source) buf"

text \<open>
  \<open>typedArray.slice(start, end)\<close>: a negative index counts from the end, both indices
  are clamped to the array, and an inverted range is empty.
\<close>

definition slice :: "samples \<Rightarrow> int \<Rightarrow> int \<Rightarrow> samples" where
  "slice xs s e =
     (let len = int (length xs);
          k = (if s < 0 then max (len + s) 0 else min s len);
          final = (if e < 0 then max (len + e) 0 else min e len);
          count = max (final - k) 0
      in take (nat count) (drop (nat k) xs))"

section \<open>AudioRecorder\<close>

record recorder =
  buffers :: "samples list"
  clip :: "samples option"
  recording :: bool

text \<open>The constructor: no chunk, no clip, not recording.\<close>

definition new_recorder :: recorder where
  "new_recorder = \<lparr>buffers = [], clip = None, recording = False\<rparr>"

text \<open>\<open>clear()\<close>: \<open>this.clip = null; this.buffers = []\<close>.\<close>

definition clear :: "recorder \<Rightarrow> recorder" where
  "clear r = r\<lparr>clip := None, buffers := []\<rparr>"

text \<open>\<open>stop()\<close> and \<open>record()\<close>, as far as they touch the stored data and the flag.\<close>

definition stop :: "recorder \<Rightarrow> recorder" where
  "stop r = r\<lparr>recording := False\<rparr>"

definition record_start :: "recorder \<Rightarrow> recorder" where
  "record_start r = (clear (if recording r then stop r else r))\<lparr>recording := True\<rparr>"

text \<open>
  The \<open>onaudioprocess\<close> callback installed by \<open>record()\<close>: the copied input chunk is
  pushed onto \<open>buffers\<close>. (\<open>onData\<close> is never set in this repository.)
\<close>

definition onaudioprocess :: "recorder \<Rightarrow> samples \<Rightarrow> recorder" where
  "onaudioprocess r buffer = r\<lparr>buffers := buffers r @ [buffer]\<rparr>"

text \<open>
  The copy loop of \<open>createClip()\<close>: chunk \<open>i\<close> is written at \<open>pos = i * bufLen\<close>.
\<close>

fun copy_chunks :: "samples \<Rightarrow> nat \<Rightarrow> nat \<Rightarrow> samples list \<Rightarrow> samples" where
  "copy_chunks c bufLen i [] = c"
| "copy_chunks c bufLen i (tmp # rest) =
     copy_chunks (copyToChannel c tmp (i * bufLen)) bufLen (Suc i) rest"

text \<open>
  \<open>createClip()\<close>: returns at once when there is no chunk; otherwise the clip has
  \<open>buffers.length * buffers[0].length\<close> frames. When \<open>createBuffer\<close> throws, the
  recorder is left as it was.
\<close>

definition createClip :: "recorder \<Rightarrow> js_error + recorder" where
  "createClip r =
     (case buffers r of
        [] \<Rightarrow> Inr r
      | b0 # _ \<Rightarrow>
          (let bufLen = length b0;
               len = length (buffers r) * bufLen
           in case createBuffer (int len) of
                Inl e \<Rightarrow> Inl e
              | Inr c \<Rightarrow> Inr (r\<lparr>clip := Some (copy_chunks c bufLen 0 (buffers r))\<rparr>)))"

text \<open>
  \<open>getBuffer(start, end)\<close>. The result pairs the recorder after the call (the clip may
  have been created) with the exception thrown or the buffer returned.
  \<open>start || 0\<close> is \<open>start\<close> for a number and \<open>0\<close> for an absent argument;
  \<open>end || this.clip.length\<close> takes the clip's length for an absent argument and for
  \<open>0\<close>. With no clip (\<open>null\<close>), reading \<open>this.clip.length\<close> or calling
  \<open>this.clip.getChannelData\<close> throws \<open>TypeError\<close>.
\<close>

definition getBuffer :: "recorder \<Rightarrow> int option \<Rightarrow> int option \<Rightarrow> recorder \<times> (js_error + samples)" where
  "getBuffer r start end' =
     (case (if clip r = None then createClip r else Inr r) of
        Inl e \<Rightarrow> (r, Inl e)
      | Inr r1 \<Rightarrow>
          (let s = (case start of None \<Rightarrow> 0 | Some a \<Rightarrow> a)
           in case clip r1 of
                None \<Rightarrow> (r1, Inl TypeError)
              | Some c \<Rightarrow>
                  (let e = (case end' of
                              None \<Rightarrow> int (length c)
                            | Some b \<Rightarrow> if b = 0 then int (length c) else b);
                       data = slice c s e
                   in case createBuffer (e - s) of
                        Inl err \<Rightarrow> (r1, Inl err)
                      | Inr buf \<Rightarrow> (r1, Inr (copyToChannel buf data 0)))))"

section \<open>WaveViewer\<close>

text \<open>
  The canvas of the template is 512 by 512 pixels. The viewer's \<open>end\<close> is the field
  \<open>view_end\<close> here; \<open>start\<close> is the computed property. \<open>dragging\<close> is set by the
  mouse handlers only and is absent (falsy) before the first \<open>mousedown\<close>. The props
  \<open>buffers\<close>, \<open>recorder.recording\<close> and \<open>acx.sampleRate\<close> are arguments of the
  methods that read them. \<open>render()\<close> draws and changes no field, so the handlers
  below return the fields as they leave them.
\<close>

definition cv_width :: real where
  "cv_width = 512"

definition cv_height :: real where
  "cv_height = 512"

definition clamp :: "real \<Rightarrow> real \<Rightarrow> real \<Rightarrow> real" where
  "clamp x minX maxX = max minX (min maxX x)"

record selection =
  sel_start :: real
  sel_end :: real

record viewer =
  bufLen :: real
  view_end :: real
  scale :: real
  lockWave :: bool
  selection :: selection
  dragging :: bool
  timeSliderValue :: real

definition initial_viewer :: viewer where
  "initial_viewer =
     \<lparr>bufLen = 0, view_end = 0, scale = 0.003906252, lockWave = True,
      selection = \<lparr>sel_start = 0, sel_end = 0\<rparr>, dragging = False, timeSliderValue = 50\<rparr>"

text \<open>\<open>start()\<close>: \<open>max(0, end - ceil(cv.width / scale) - 1)\<close>.\<close>

definition start :: "viewer \<Rightarrow> real" where
  "start v = max 0 (view_end v - of_int \<lceil>cv_width / scale v\<rceil> - 1)"

text \<open>The sample under the pointer: \<open>this.start + e.offsetX / this.scale\<close>.\<close>

definition sample_at :: "viewer \<Rightarrow> real \<Rightarrow> real" where
  "sample_at v offsetX = start v + offsetX / scale v"

definition mousedown :: "viewer \<Rightarrow> real \<Rightarrow> viewer" where
  "mousedown v offsetX =
     v\<lparr>dragging := True,
       selection := \<lparr>sel_start = sample_at v offsetX, sel_end = sample_at v offsetX\<rparr>\<rparr>"

definition mousemove :: "viewer \<Rightarrow> real \<Rightarrow> viewer" where
  "mousemove v offsetX =
     (if \<not> dragging v then v
      else let i = sample_at v offsetX
           in if i > sel_start (selection v)
              then v\<lparr>selection := (selection v)\<lparr>sel_end := i\<rparr>\<rparr>
              else v\<lparr>selection := (selection v)\<lparr>sel_start := i\<rparr>\<rparr>)"

text \<open>\<open>mouseup()\<close>: the second component is the selection emitted to the parent.\<close>

definition mouseup :: "viewer \<Rightarrow> viewer \<times> selection" where
  "mouseup v = (v\<lparr>dragging := False\<rparr>, selection v)"

text \<open>
  \<open>zoom(delta)\<close>. \<open>start\<close>, \<open>end\<close> and \<open>scale\<close> are read before \<open>this.scale\<close> is
  assigned; \<open>this.start\<close> is read after. \<open>pow(1.01, delta)\<close> is \<open>1.01 powr delta\<close>.
\<close>

definition zoom :: "viewer \<Rightarrow> bool \<Rightarrow> real \<Rightarrow> viewer" where
  "zoom v is_recording delta =
     (let start0 = start v; end0 = view_end v; scale0 = scale v;
          v1 = v\<lparr>scale := clamp (scale0 * (1.01 powr delta)) (1 / 256) 16\<rparr>
      in if \<not> is_recording
         then (let diff = start v1 - start0;
                   minEnd = min (cv_width / scale0) (bufLen v)
               in v1\<lparr>view_end := clamp (of_int \<lfloor>end0 - diff / 2\<rfloor>) minEnd (bufLen v)\<rparr>)
         else v1)"

definition timeSliderInput :: "viewer \<Rightarrow> bool \<Rightarrow> real \<Rightarrow> viewer" where
  "timeSliderInput v is_recording value = zoom (v\<lparr>scale := 0.003906252\<rparr>) is_recording (16 * value)"

text \<open>\<open>skip(delta)\<close>, with its comment "clamp end to ensure a full frame shows".\<close>

definition skip :: "viewer \<Rightarrow> real \<Rightarrow> viewer" where
  "skip v delta =
     (let minEnd = min (cv_width / scale v) (bufLen v)
      in v\<lparr>view_end := clamp (of_int \<lfloor>view_end v + delta / scale v\<rfloor>) minEnd (bufLen v)\<rparr>)"

definition mousewheel :: "viewer \<Rightarrow> samples list \<Rightarrow> bool \<Rightarrow> real \<Rightarrow> real \<Rightarrow> viewer" where
  "mousewheel v bs is_recording deltaX deltaY =
     (if bs = [] then v
      else let v1 = (if \<bar>deltaX\<bar> \<ge> \<bar>deltaY\<bar> then skip v deltaX else v)
           in if \<bar>deltaY\<bar> \<ge> \<bar>deltaX\<bar> then zoom v1 is_recording deltaY else v1)"

text \<open>The "live" button: \<open>end = bufLen\<close>.\<close>

definition live :: "viewer \<Rightarrow> viewer" where
  "live v = v\<lparr>view_end := bufLen v\<rparr>"

text \<open>
  \<open>update(buffers)\<close>, the watcher of the \<open>buffers\<close> prop. \<open>None\<close> is an absent
  (\<open>null\<close> or \<open>undefined\<close>) list.
\<close>

definition reset_view :: "viewer \<Rightarrow> viewer" where
  "reset_view v =
     v\<lparr>selection := (selection v)\<lparr>sel_start := 0, sel_end := 0\<rparr>, bufLen := 0, view_end := 0\<rparr>"

definition update :: "viewer \<Rightarrow> samples list option \<Rightarrow> viewer" where
  "update v bs_opt =
     (case bs_opt of
        None \<Rightarrow> reset_view v
      | Some [] \<Rightarrow> reset_view v
      | Some (b0 # bs) \<Rightarrow>
          (let newBufLen = real (length (b0 # bs) * length b0);
               v1 = (if \<bar>view_end v - bufLen v\<bar> < 64 / scale v \<or> bufLen v > newBufLen
                     then v\<lparr>view_end := newBufLen\<rparr> else v)
           in v1\<lparr>bufLen := newBufLen\<rparr>))"

subsection \<open>render: the sample lookup\<close>

text \<open>
  \<open>%\<close> on numbers keeps the sign of the dividend: \<open>a % n = a - n * trunc(a / n)\<close>.
\<close>

definition js_trunc :: "real \<Rightarrow> int" where
  "js_trunc x = (if x < 0 then \<lceil>x\<rceil> else \<lfloor>x\<rfloor>)"

definition js_rem :: "real \<Rightarrow> real \<Rightarrow> real" where
  "js_rem a n = a - n * of_int (js_trunc (a / n))"

text \<open>
  \<open>xs[j]\<close> on an array: the element when \<open>j\<close> is an integer index within the array,
  \<open>undefined\<close> (\<open>None\<close>) otherwise.
\<close>

definition js_index :: "'a list \<Rightarrow> real \<Rightarrow> 'a option" where
  "js_index xs j =
     (if 0 \<le> j \<and> j < real (length xs) \<and> of_int \<lfloor>j\<rfloor> = j then Some (xs ! nat \<lfloor>j\<rfloor>) else None)"

text \<open>
  \<open>getData(i)\<close> of \<open>render()\<close>. \<open>render\<close> returns before defining it when there is no
  chunk; called with none, \<open>buffers[0].length\<close> throws. A chunk length of \<open>0\<close> makes
  \<open>i / 0\<close> infinite or NaN, which indexes no chunk. The result is \<open>Inr None\<close> for
  \<open>undefined\<close>.
\<close>

definition getData :: "samples list \<Rightarrow> real \<Rightarrow> js_error + real option" where
  "getData bs i =
     (case bs of
        [] \<Rightarrow> Inl TypeError
      | b0 # _ \<Rightarrow>
          (if length b0 = 0 then Inr (Some 0)
           else let buf = real_of_int \<lfloor>i / real (length b0)\<rfloor>;
                    j = js_rem i (real (length b0))
                in case js_index bs buf of
                     Some chunk \<Rightarrow> Inr (js_index chunk j)
                   | None \<Rightarrow> Inr (Some 0)))"

subsection \<open>renderScale\<close>

text \<open>The first loop: \<open>while (pps * mul > cv.width / 2) mul /= 10\<close>.\<close>

function scale_mul :: "real \<Rightarrow> real \<Rightarrow> real" where
  "scale_mul pps mul = (if pps * mul > cv_width / 2 then scale_mul pps (mul / 10) else mul)"
  by pat_completeness auto
termination
proof (relation "measure (\<lambda>(pps, mul). nat \<lceil>pps * mul\<rceil>)")
  show "wf (measure (\<lambda>(pps, mul). nat \<lceil>pps * mul\<rceil>))" by simp
next
  fix pps mul :: real
  assume "cv_width / 2 < pps * mul"
  then have big: "256 < pps * mul" by (simp add: cv_width_def)
  have "real_of_int \<lceil>pps * (mul / 10)\<rceil> < pps * (mul / 10) + 1" by linarith
  also have "\<dots> < pps * mul" using big by simp
  also have "\<dots> \<le> real_of_int \<lceil>pps * mul\<rceil>" by linarith
  finally have "\<lceil>pps * (mul / 10)\<rceil> < \<lceil>pps * mul\<rceil>" by linarith
  moreover have "0 < \<lceil>pps * mul\<rceil>" using big by linarith
  ultimately show "((pps, mul / 10), (pps, mul)) \<in> measure (\<lambda>(pps, mul). nat \<lceil>pps * mul\<rceil>)"
    by simp
qed

text \<open>The second loop, for the label: \<open>while (mul < 1) mul *= 1000\<close>.\<close>

partial_function (option) label_mul :: "real \<Rightarrow> real option" where
  "label_mul mul = (if mul < 1 then label_mul (mul * 1000) else Some mul)"

datatype time_unit = Seconds | Milliseconds | Microseconds

record scale_bar =
  bar_x :: real
  bar_y :: real
  bar_w :: real
  bar_h :: real
  label_value :: real
  label_unit :: time_unit

text \<open>
  \<open>renderScale()\<close>: the rectangle passed to \<open>fillRect\<close> and the label. \<open>None\<close> when the
  label loop does not return.
\<close>

definition renderScale :: "real \<Rightarrow> real \<Rightarrow> scale_bar option" where
  "renderScale sampleRate scale0 =
     (let pps = sampleRate * scale0;
          mul = scale_mul pps 1;
          len = pps * mul;
          unit = (if mul \<ge> 1 then Seconds else if mul \<ge> 0.001 then Milliseconds else Microseconds)
      in case label_mul mul of
           None \<Rightarrow> None
         | Some m \<Rightarrow>
             Some \<lparr>bar_x = cv_width / 2 - len / 2, bar_y = 0.4 * cv_height, bar_w = len, bar_h = 2,
                   label_value = m, label_unit = unit\<rparr>)"

section \<open>The specification's formulas\<close>

text \<open>
  The length the specification gives for \<open>getRange(a, b)\<close> on a store of \<open>n\<close>
  samples: \<open>clamp(b, 0, n) - clamp(a, 0, n)\<close>, or zero if that is negative. It is
  written from the specification's words, to be compared with \<open>getBuffer\<close>.
\<close>

definition spec_range_length :: "int \<Rightarrow> int \<Rightarrow> int \<Rightarrow> int" where
  "spec_range_length a b n = max 0 (max 0 (min n b) - max 0 (min n a))"

text \<open>
  The \<open>end\<close> the specification gives for \<open>zoom(delta)\<close> when not recording:
  \<open>clamp(floor(end - (start_old_at_new_scale - start_old) / 2), minEnd, totalLength)\<close>
  with \<open>minEnd = min(viewportWidthPixels / scale', totalLength)\<close> taken at the new
  scale \<open>scale'\<close>. It is written from the specification's words, to be compared with
  \<open>zoom\<close>.
\<close>

definition spec_zoom_end :: "viewer \<Rightarrow> real \<Rightarrow> real" where
  "spec_zoom_end v delta =
     (let scale' = clamp (scale v * (1.01 powr delta)) (1 / 256) 16;
          start_old = start v;
          start_old_at_new_scale = start (v\<lparr>scale := scale'\<rparr>);
          minEnd = min (cv_width / scale') (bufLen v)
      in clamp (of_int \<lfloor>view_end v - (start_old_at_new_scale - start_old) / 2\<rfloor>) minEnd (bufLen v))"

section \<open>Facts about the recorder\<close>

lemma copyToChannel_length [simp]: "length (copyToChannel buf source k) = length buf"
  by (simp add: copyToChannel_def)

lemma copy_chunks_length [simp]: "length (copy_chunks c n i bs) = length c"
  by (induction bs arbitrary: c i) simp_all

lemma copy_chunks_concat:
  "\<forall>b \<in> set bs. length b = L \<Longrightarrow> length c = (i + length bs) * L \<Longrightarrow>
   copy_chunks c L i bs = take (i * L) c @ concat bs"
proof (induction bs arbitrary: c i)
  case Nil
  then show ?case by simp
next
  case (Cons b bs)
  let ?c' = "copyToChannel c b (i * L)"
  have lb: "length b = L" using Cons.prems(1) by simp
  have lc: "length c = i * L + L + length bs * L"
    using Cons.prems(2) by (simp add: algebra_simps)
  have lc': "length ?c' = (Suc i + length bs) * L"
    using lc by (simp add: algebra_simps)
  have "copy_chunks ?c' L (Suc i) bs = take (Suc i * L) ?c' @ concat bs"
    using Cons.IH [of ?c' "Suc i"] Cons.prems(1) lc' by simp
  moreover have "take (Suc i * L) ?c' = take (i * L) c @ b"
    using lb lc by (simp add: copyToChannel_def)
  ultimately show ?case by simp
qed

lemma onaudioprocess_clip: "clip (onaudioprocess r b) = clip r"
  by (simp add: onaudioprocess_def)

lemma onaudioprocess_buffers: "buffers (onaudioprocess r b) = buffers r @ [b]"
  by (simp add: onaudioprocess_def)

lemma length_concat_uniform:
  "\<forall>b \<in> set bs. length b = L \<Longrightarrow> length (concat bs) = length bs * L"
  by (induction bs) simp_all

lemma sum_list_length_uniform:
  "\<forall>b \<in> set bs. length b = L \<Longrightarrow> sum_list (map length bs) = length bs * L"
  by (induction bs) simp_all

lemma createBuffer_frames:
  "0 < n \<Longrightarrow> n < frames_limit \<Longrightarrow> createBuffer n = Inr (replicate (nat n) 0)"
  by (simp add: createBuffer_def)

lemma createBuffer_rejects: "n \<le> 0 \<Longrightarrow> createBuffer n = Inl NotSupportedError"
  by (simp add: createBuffer_def)

lemma createClip_uniform:
  assumes "buffers r \<noteq> []" "\<forall>b \<in> set (buffers r). length b = L" "0 < L"
    "int (length (buffers r) * L) < frames_limit"
  shows "createClip r = Inr (r\<lparr>clip := Some (concat (buffers r))\<rparr>)"
proof -
  obtain b0 bs where bs: "buffers r = b0 # bs" using assms(1) by (cases "buffers r") auto
  have l0: "length b0 = L" using assms(2) bs by simp
  have pos: "0 < int (length (buffers r) * L)" using assms(1,3) by simp
  have cb: "createBuffer (int (length (buffers r) * L)) = Inr (replicate (length (buffers r) * L) 0)"
    using createBuffer_frames [OF pos assms(4)] by (simp del: of_nat_mult)
  have "copy_chunks (replicate (length (buffers r) * L) 0) L 0 (buffers r) = concat (buffers r)"
    using copy_chunks_concat [of "buffers r" L "replicate (length (buffers r) * L) 0" 0] assms(2)
    by simp
  then show ?thesis
    using cb l0 bs by (simp add: createClip_def)
qed

lemma foldl_onaudioprocess_buffers:
  "buffers (foldl onaudioprocess r cs) = buffers r @ cs"
  by (induction cs arbitrary: r) (simp_all add: onaudioprocess_def)

lemma foldl_onaudioprocess_clip:
  "clip (foldl onaudioprocess r cs) = clip r"
  by (induction cs arbitrary: r) (simp_all add: onaudioprocess_def)

lemma getBuffer_with_clip:
  assumes "clip r = Some c" "e = (if b = 0 then int (length c) else b)" "a < e" "e - a < frames_limit"
  shows "getBuffer r (Some a) (Some b) = (r, Inr (copyToChannel (replicate (nat (e - a)) 0) (slice c a e) 0))"
proof -
  have "createBuffer (e - a) = Inr (replicate (nat (e - a)) 0)"
    using assms(3,4) by (intro createBuffer_frames) simp_all
  then show ?thesis
    using assms(1,2) by (simp add: getBuffer_def Let_def)
qed

lemma getBuffer_with_clip_rejects:
  assumes "clip r = Some c" "e = (if b = 0 then int (length c) else b)" "e \<le> a"
  shows "getBuffer r (Some a) (Some b) = (r, Inl NotSupportedError)"
proof -
  have "createBuffer (e - a) = Inl NotSupportedError"
    using assms(3) by (intro createBuffer_rejects) simp
  then show ?thesis
    using assms(1,2) by (simp add: getBuffer_def Let_def)
qed

lemma getBuffer_creates_clip:
  assumes "buffers r \<noteq> []" "\<forall>b \<in> set (buffers r). length b = L" "0 < L"
    "int (length (buffers r) * L) < frames_limit" "clip r = None"
  shows "getBuffer r x y = getBuffer (r\<lparr>clip := Some (concat (buffers r))\<rparr>) x y"
  using assms(5) createClip_uniform [OF assms(1-4)] by (simp add: getBuffer_def)

lemma getBuffer_fresh:
  assumes "buffers r \<noteq> []" "\<forall>b \<in> set (buffers r). length b = L" "0 < L"
    "int (length (buffers r) * L) < frames_limit" "clip r = None"
    "e = (if b = 0 then int (length (buffers r) * L) else b)" "a < e" "e - a < frames_limit"
  shows "getBuffer r (Some a) (Some b) =
         (r\<lparr>clip := Some (concat (buffers r))\<rparr>,
          Inr (copyToChannel (replicate (nat (e - a)) 0) (slice (concat (buffers r)) a e) 0))"
proof -
  let ?r1 = "r\<lparr>clip := Some (concat (buffers r))\<rparr>"
  have e: "e = (if b = 0 then int (length (concat (buffers r))) else b)"
    using assms(6) length_concat_uniform [OF assms(2)] by simp
  have "getBuffer r (Some a) (Some b) = getBuffer ?r1 (Some a) (Some b)"
    using assms(1-5) by (rule getBuffer_creates_clip)
  also have "\<dots> = (?r1, Inr (copyToChannel (replicate (nat (e - a)) 0) (slice (concat (buffers r)) a e) 0))"
    using getBuffer_with_clip [of ?r1 "concat (buffers r)" e b a] e assms(7,8) by simp
  finally show ?thesis .
qed

lemma slice_in_range:
  "0 \<le> a \<Longrightarrow> a \<le> b \<Longrightarrow> b \<le> int (length xs) \<Longrightarrow> slice xs a b = take (nat (b - a)) (drop (nat a) xs)"
  by (simp add: slice_def Let_def min_def max_def)

lemma copyToChannel_full:
  "length source = n \<Longrightarrow> copyToChannel (replicate n 0) source 0 = source"
  by (simp add: copyToChannel_def)


lemma copyToChannel_zeros:
  "copyToChannel (replicate n 0) source 0 = take n source @ replicate (n - length source) 0"
  by (simp add: copyToChannel_def)

section \<open>Facts about the viewer\<close>

lemma sample_at_mousedown [simp]: "sample_at (mousedown v x) y = sample_at v y"
  by (simp add: sample_at_def start_def mousedown_def)

lemma update_nonempty:
  "bs \<noteq> [] \<Longrightarrow> update v (Some bs) =
     (if \<bar>view_end v - bufLen v\<bar> < 64 / scale v \<or> bufLen v > real (length bs * length (hd bs))
      then v\<lparr>view_end := real (length bs * length (hd bs))\<rparr> else v)
     \<lparr>bufLen := real (length bs * length (hd bs))\<rparr>"
  by (cases bs) (simp_all add: update_def Let_def)

lemma js_index_nat: "js_index xs (real k) = (if k < length xs then Some (xs ! k) else None)"
  by (simp add: js_index_def)

lemma js_index_int_outside:
  "z < 0 \<or> int (length xs) \<le> z \<Longrightarrow> js_index xs (real_of_int z) = None"
  by (auto simp: js_index_def)

lemma js_rem_nat: "js_rem (real n) (real L) = real (n mod L)"
proof -
  have "\<not> real n / real L < 0" by (simp add: not_less)
  then have "js_trunc (real n / real L) = int (n div L)"
    by (simp add: js_trunc_def floor_divide_of_nat_eq)
  then have "js_rem (real n) (real L) = real n - real L * real (n div L)"
    by (simp add: js_rem_def)
  also have "\<dots> = real (n - L * (n div L))"
    by (simp add: of_nat_diff)
  also have "n - L * (n div L) = n mod L"
    by (simp add: minus_mult_div_eq_mod)
  finally show ?thesis .
qed

lemma getData_outside_aux:
  assumes "bs \<noteq> []" and "i < 0 \<or> real (length bs * length (hd bs)) \<le> i"
  shows "getData bs i = Inr (Some 0)"
proof -
  obtain b0 rest where bs: "bs = b0 # rest" using assms(1) by (cases bs) auto
  show ?thesis
  proof (cases "length b0 = 0")
    case True
    then show ?thesis by (simp add: getData_def bs)
  next
    case False
    then have L: "0 < real (length b0)" by simp
    have "\<lfloor>i / real (length b0)\<rfloor> < 0 \<or> int (length bs) \<le> \<lfloor>i / real (length b0)\<rfloor>"
    proof (cases "i < 0")
      case True
      then have "i / real (length b0) < 0" using L by (simp add: divide_neg_pos)
      then show ?thesis by linarith
    next
      case False
      moreover have "hd bs = b0" by (simp add: bs)
      ultimately have "real (length bs) * real (length b0) \<le> i" using assms(2) by simp
      then have "real (length bs) \<le> i / real (length b0)" using L by (simp add: pos_le_divide_eq)
      then have "int (length bs) \<le> \<lfloor>i / real (length b0)\<rfloor>" by linarith
      then show ?thesis by simp
    qed
    then have "js_index bs (real_of_int \<lfloor>i / real (length b0)\<rfloor>) = None"
      by (rule js_index_int_outside)
    then show ?thesis using False by (simp add: getData_def bs [symmetric] Let_def) (simp add: bs)
  qed
qed

lemma getData_inside_aux:
  assumes "bs \<noteq> []" and "\<forall>b \<in> set bs. length b = length (hd bs)"
    and "n < length bs * length (hd bs)"
  shows "getData bs (real n) = Inr (Some (bs ! (n div length (hd bs)) ! (n mod length (hd bs))))"
proof -
  obtain b0 rest where bs: "bs = b0 # rest" using assms(1) by (cases bs) auto
  define L where "L = length b0"
  have hdL: "length (hd bs) = L" by (simp add: bs L_def)
  have b0: "length b0 = L" by (simp add: L_def)
  have Lpos: "0 < L" using assms(3) hdL by (cases "L = 0") simp_all
  have q: "n div L < length bs" using assms(3) hdL Lpos
    by (simp add: less_mult_imp_div_less)
  have fl: "real_of_int \<lfloor>real n / real L\<rfloor> = real (n div L)"
    by (simp add: floor_divide_of_nat_eq)
  have chunk: "js_index bs (real (n div L)) = Some (bs ! (n div L))"
    using q by (simp add: js_index_nat)
  have "bs ! (n div L) \<in> set bs" using q by simp
  then have cl: "length (bs ! (n div L)) = L" using assms(2) hdL by simp
  have inner: "js_index (bs ! (n div L)) (real (n mod L)) = Some (bs ! (n div L) ! (n mod L))"
    using cl Lpos by (simp add: js_index_nat)
  have "getData bs (real n) =
        (case js_index bs (real_of_int \<lfloor>real n / real L\<rfloor>) of
           Some chunk \<Rightarrow> Inr (js_index chunk (js_rem (real n) (real L)))
         | None \<Rightarrow> Inr (Some 0))"
    using Lpos by (simp add: getData_def bs b0 Let_def)
  also have "\<dots> = Inr (Some (bs ! (n div L) ! (n mod L)))"
    by (simp only: fl chunk js_rem_nat inner option.case)
  finally show ?thesis by (simp add: hdL)
qed

lemma scale_mul_char:
  "\<exists>k. scale_mul pps mul = mul / 10 ^ k \<and> pps * (mul / 10 ^ k) \<le> cv_width / 2
       \<and> (\<forall>j<k. cv_width / 2 < pps * (mul / 10 ^ j))"
proof (induction pps mul rule: scale_mul.induct)
  case (1 pps mul)
  show ?case
  proof (cases "cv_width / 2 < pps * mul")
    case False
    then have "scale_mul pps mul = mul / 10 ^ 0 \<and> pps * (mul / 10 ^ 0) \<le> cv_width / 2
       \<and> (\<forall>j<0::nat. cv_width / 2 < pps * (mul / 10 ^ j))"
      by simp
    then show ?thesis by blast
  next
    case True
    from "1.IH" [OF True] obtain k where
      k: "scale_mul pps (mul / 10) = mul / 10 / 10 ^ k"
         "pps * (mul / 10 / 10 ^ k) \<le> cv_width / 2"
         "\<forall>j<k. cv_width / 2 < pps * (mul / 10 / 10 ^ j)"
      by blast
    have eq: "scale_mul pps mul = scale_mul pps (mul / 10)"
      using True by (subst scale_mul.simps) simp
    have all: "\<forall>j<Suc k. cv_width / 2 < pps * (mul / 10 ^ j)"
    proof (intro allI impI)
      fix j assume j: "j < Suc k"
      show "cv_width / 2 < pps * (mul / 10 ^ j)"
      proof (cases j)
        case 0
        then show ?thesis using True by simp
      next
        case (Suc i)
        then have "i < k" using j by simp
        then show ?thesis using k(3) Suc by simp
      qed
    qed
    have "scale_mul pps mul = mul / 10 ^ Suc k \<and> pps * (mul / 10 ^ Suc k) \<le> cv_width / 2"
      using eq k(1,2) by simp
    with all show ?thesis by blast
  qed
qed

lemma label_mul_steps:
  "0 < mul \<Longrightarrow> 1 \<le> mul * 1000 ^ k \<Longrightarrow> \<exists>m. label_mul mul = Some m"
proof (induction k arbitrary: mul)
  case 0
  then show ?case by (subst label_mul.simps) simp
next
  case (Suc k)
  show ?case
  proof (cases "mul < 1")
    case True
    have "\<exists>m. label_mul (mul * 1000) = Some m"
      using Suc.IH [of "mul * 1000"] Suc.prems by (simp add: mult.assoc)
    then show ?thesis using True by (subst label_mul.simps) simp
  next
    case False
    then show ?thesis by (subst label_mul.simps) simp
  qed
qed

lemma label_mul_returns: "0 < mul \<Longrightarrow> \<exists>m. label_mul mul = Some m"
proof -
  assume pos: "0 < mul"
  obtain k where "1 / mul < 1000 ^ k"
    using real_arch_pow [of 1000 "1 / mul"] by auto
  then have "1 \<le> mul * 1000 ^ k"
    using pos by (simp add: field_simps)
  with pos show ?thesis by (rule label_mul_steps)
qed

lemma powr_minus_one_101: "(1.01::real) powr (- 1) = 100 / 101"
  by (simp add: powr_minus)

lemma clamp_bounds: "lo \<le> hi \<Longrightarrow> lo \<le> clamp x lo hi \<and> clamp x lo hi \<le> hi"
  by (auto simp: clamp_def)

lemma zoom_scale:
  "scale (zoom v is_recording delta) = clamp (scale v * (1.01 powr delta)) (1 / 256) 16
   \<and> 1 / 256 \<le> scale (zoom v is_recording delta) \<and> scale (zoom v is_recording delta) \<le> 16"
proof -
  have eq: "scale (zoom v is_recording delta) = clamp (scale v * (1.01 powr delta)) (1 / 256) 16"
    by (simp add: zoom_def Let_def)
  have "(1::real) / 256 \<le> 16" by simp
  from clamp_bounds [OF this, of "scale v * (1.01 powr delta)"] eq show ?thesis by simp
qed

lemma start_bounds: "0 < scale v \<Longrightarrow> 0 \<le> view_end v \<Longrightarrow> 0 \<le> start v \<and> start v \<le> view_end v"
proof -
  assume s: "0 < scale v" and e: "0 \<le> view_end v"
  have "0 < cv_width / scale v" using s by (simp add: cv_width_def)
  then have "- 1 < cv_width / scale v" by linarith
  then have "0 \<le> \<lceil>cv_width / scale v\<rceil>" by (simp only: zero_le_ceiling)
  then have "0 \<le> real_of_int \<lceil>cv_width / scale v\<rceil>" by simp
  then show ?thesis unfolding start_def using e by linarith
qed

lemma zoom_window:
  assumes "0 < scale v" and "0 \<le> view_end v" and "view_end v \<le> bufLen v"
  shows "0 \<le> start (zoom v is_recording delta)
         \<and> start (zoom v is_recording delta) \<le> view_end (zoom v is_recording delta)
         \<and> view_end (zoom v is_recording delta) \<le> bufLen (zoom v is_recording delta)"
proof -
  let ?u = "zoom v is_recording delta"
  have sc: "0 < scale ?u" using zoom_scale [of v is_recording delta] by linarith
  have bl: "bufLen ?u = bufLen v" by (simp add: zoom_def Let_def)
  have b0: "0 \<le> bufLen v" using assms(2,3) by linarith
  have m0: "0 \<le> min (cv_width / scale v) (bufLen v)"
    using assms(1) b0 by (simp add: cv_width_def)
  have e: "0 \<le> view_end ?u \<and> view_end ?u \<le> bufLen v"
    using assms(2,3) m0 by (auto simp: zoom_def Let_def clamp_def)
  show ?thesis using start_bounds [OF sc] e bl by simp
qed


section \<open>C1: a chunk appended after the clip was created\<close>

text \<open>
  C1. The claim: appending a chunk discards the cached clip in the same call, so that no
  later \<open>getBuffer\<close> reads a clip without the new chunk. \<open>clear()\<close> sets \<open>clip\<close> to
  \<open>null\<close>, but the \<open>onaudioprocess\<close> callback only pushes the chunk
  (\<open>onaudioprocess_clip\<close>). Evaluated here: recording starts, the chunk \<open>[1, 2]\<close>
  arrives, \<open>getBuffer()\<close> creates the clip, the chunk \<open>[3, 4]\<close> arrives. The clip is
  still \<open>[1, 2]\<close>, the store holds both chunks, and the next \<open>getBuffer()\<close> returns
  \<open>[1, 2]\<close> only.
\<close>

theorem append_keeps_stale_clip:
  "clip (onaudioprocess (fst (getBuffer (onaudioprocess (record_start new_recorder) [1, 2]) None None)) [3, 4])
     = Some [1, 2]
   \<and> buffers (onaudioprocess (fst (getBuffer (onaudioprocess (record_start new_recorder) [1, 2]) None None)) [3, 4])
     = [[1, 2], [3, 4]]
   \<and> snd (getBuffer (onaudioprocess (fst (getBuffer (onaudioprocess (record_start new_recorder) [1, 2]) None None)) [3, 4]) None None)
     = Inr [1, 2]"
  by (simp add: getBuffer_def createClip_def createBuffer_def frames_limit_def copyToChannel_def
      slice_def onaudioprocess_def record_start_def clear_def stop_def new_recorder_def)

section \<open>C2: the length of the buffer getBuffer returns\<close>

text \<open>
  C2, as stated. The claim says that \<open>getBuffer(a, b)\<close> never throws and returns
  \<open>clamp(b, 0, totalLength) - clamp(a, 0, totalLength)\<close> samples, or none when that
  is negative. On two chunks of two samples, \<open>getBuffer(0, 10)\<close> returns ten frames,
  the four samples and six zeros, where the formula gives four; the inverted range
  \<open>getBuffer(3, 1)\<close> and the empty range \<open>getBuffer(2, 2)\<close> throw, where the
  formula gives a buffer of length zero.
\<close>

theorem getBuffer_unclamped_counterexample:
  "snd (getBuffer \<lparr>buffers = [[1, 2], [3, 4]], clip = None, recording = False\<rparr> (Some 0) (Some 10))
     = Inr ([1, 2, 3, 4] @ replicate 6 0)
   \<and> spec_range_length 0 10 4 = 4
   \<and> isl (snd (getBuffer \<lparr>buffers = [[1, 2], [3, 4]], clip = None, recording = False\<rparr> (Some 3) (Some 1)))
   \<and> spec_range_length 3 1 4 = 0
   \<and> isl (snd (getBuffer \<lparr>buffers = [[1, 2], [3, 4]], clip = None, recording = False\<rparr> (Some 2) (Some 2)))
   \<and> spec_range_length 2 2 4 = 0"
  by (simp add: getBuffer_def createClip_def createBuffer_def frames_limit_def copyToChannel_def
      slice_def spec_range_length_def)

text \<open>
  C2, amended. The store holds at least one chunk, its chunks have one length
  \<open>L > 0\<close>, fewer than \<open>2 ^ 32\<close> samples in all, and the clip is absent or up to
  date. For integers \<open>a\<close> and \<open>b\<close> let \<open>e\<close> be \<open>b\<close>, or the total length when
  \<open>b = 0\<close>. If \<open>a < e\<close> and \<open>e - a < 2 ^ 32\<close> then \<open>getBuffer(a, b)\<close> returns a buffer
  of exactly \<open>e - a\<close> frames, the clip's \<open>slice(a, e)\<close> followed by zeros; the length
  is not clamped to the data. If \<open>e \<le> a\<close> and \<open>a - e < 2 ^ 32\<close> (an inverted or
  empty range) the call throws, since \<open>createBuffer\<close> takes no length below one. For
  \<open>0 \<le> a < b \<le> totalLength\<close> the length \<open>e - a\<close> is the one the specification's
  formula gives.
\<close>

theorem getBuffer_length:
  assumes "buffers r \<noteq> []" and "\<forall>c \<in> set (buffers r). length c = L" and "0 < L"
    and "int (length (buffers r) * L) < frames_limit"
    and "clip r = None \<or> clip r = Some (concat (buffers r))"
    and "e = (if b = 0 then int (length (buffers r) * L) else b)"
  shows "(a < e \<and> e - a < frames_limit \<longrightarrow>
            (\<exists>buf. snd (getBuffer r (Some a) (Some b)) = Inr buf
               \<and> int (length buf) = e - a
               \<and> buf = take (nat (e - a)) (slice (concat (buffers r)) a e)
                       @ replicate (nat (e - a) - length (slice (concat (buffers r)) a e)) 0))
         \<and> (e \<le> a \<and> a - e < frames_limit \<longrightarrow> isl (snd (getBuffer r (Some a) (Some b))))
         \<and> (0 \<le> a \<and> a < b \<and> b \<le> int (length (buffers r) * L)
              \<longrightarrow> e - a = spec_range_length a b (int (length (buffers r) * L)))"
proof -
  let ?c = "concat (buffers r)"
  let ?r1 = "r\<lparr>clip := Some ?c\<rparr>"
  let ?buf = "copyToChannel (replicate (nat (e - a)) 0) (slice ?c a e) 0"
  have len: "length ?c = length (buffers r) * L"
    using assms(2) by (rule length_concat_uniform)
  have e: "e = (if b = 0 then int (length ?c) else b)"
    using assms(6) len by simp
  have mat: "snd (getBuffer r (Some a) (Some b)) = snd (getBuffer ?r1 (Some a) (Some b))"
  proof (cases "clip r")
    case None
    then show ?thesis using getBuffer_creates_clip [OF assms(1-4) None] by simp
  next
    case (Some c)
    then have "clip r = Some ?c" using assms(5) by simp
    then have "?r1 = r" by simp
    then show ?thesis by simp
  qed
  have c1: "clip ?r1 = Some ?c" by simp
  have ok: "\<exists>buf. snd (getBuffer r (Some a) (Some b)) = Inr buf
               \<and> int (length buf) = e - a
               \<and> buf = take (nat (e - a)) (slice ?c a e)
                       @ replicate (nat (e - a) - length (slice ?c a e)) 0"
    if "a < e" "e - a < frames_limit"
  proof -
    have "snd (getBuffer r (Some a) (Some b)) = Inr ?buf"
      using mat getBuffer_with_clip [OF c1 e that] by simp
    moreover have "int (length ?buf) = e - a" using that(1) by simp
    moreover have "?buf = take (nat (e - a)) (slice ?c a e)
                       @ replicate (nat (e - a) - length (slice ?c a e)) 0"
      by (rule copyToChannel_zeros)
    ultimately show ?thesis by blast
  qed
  have bad: "isl (snd (getBuffer r (Some a) (Some b)))" if "e \<le> a"
    using mat getBuffer_with_clip_rejects [OF c1 e that] by simp
  have s: "0 \<le> a \<and> a < b \<and> b \<le> int (length (buffers r) * L)
              \<longrightarrow> e - a = spec_range_length a b (int (length (buffers r) * L))"
    using assms(6) by (auto simp: spec_range_length_def)
  from ok bad s show ?thesis by blast
qed

theorem getBuffer_length_witness:
  "snd (getBuffer \<lparr>buffers = [[1, 2], [3, 4]], clip = None, recording = False\<rparr> (Some 1) (Some 3)) = Inr [2, 3]
   \<and> spec_range_length 1 3 4 = 2
   \<and> isl (snd (getBuffer \<lparr>buffers = [[1, 2], [3, 4]], clip = None, recording = False\<rparr> (Some 3) (Some 1)))"
proof -
  let ?r = "\<lparr>buffers = [[1, 2], [3, 4]], clip = None, recording = False\<rparr>"
  have h: "buffers ?r \<noteq> []" "\<forall>c \<in> set (buffers ?r). length c = 2" "(0::nat) < 2"
    "int (length (buffers ?r) * 2) < frames_limit"
    "clip ?r = None \<or> clip ?r = Some (concat (buffers ?r))"
    by (simp_all add: frames_limit_def)
  have e3: "(3::int) = (if (3::int) = 0 then int (length (buffers ?r) * 2) else 3)"
    and e1: "(1::int) = (if (1::int) = 0 then int (length (buffers ?r) * 2) else 1)"
    by simp_all
  have fwd: "(1::int) < 3 \<and> (3::int) - 1 < frames_limit" by (simp add: frames_limit_def)
  obtain buf where
    b: "snd (getBuffer ?r (Some 1) (Some 3)) = Inr buf"
       "buf = take (nat (3 - 1)) (slice (concat (buffers ?r)) 1 3)
                @ replicate (nat (3 - 1) - length (slice (concat (buffers ?r)) 1 3)) 0"
    using getBuffer_length [OF h e3, of 1] fwd by blast
  have s: "0 \<le> (1::int) \<and> (1::int) < 3 \<and> 3 \<le> int (length (buffers ?r) * 2)
              \<longrightarrow> 3 - 1 = spec_range_length 1 3 (int (length (buffers ?r) * 2))"
    using getBuffer_length [OF h e3, of 1] by blast
  have inv: "isl (snd (getBuffer ?r (Some 3) (Some 1)))"
    using getBuffer_length [OF h e1, of 3] by (simp add: frames_limit_def)
  have "buf = [2, 3]" using b(2) by (simp add: slice_def)
  moreover have "spec_range_length 1 3 4 = 2" using s by simp
  ultimately show ?thesis using b(1) inv by simp
qed

section \<open>C3: the store after clear()\<close>

lemma clear_empties:
  "buffers (clear r) = [] \<and> clip (clear r) = None \<and> clear (clear r) = clear r
   \<and> bufLen (update v (Some (buffers (clear r)))) = 0"
  by (simp add: clear_def update_def reset_view_def)

text \<open>
  C3. The claim: after \<open>clear()\<close> the total length is 0, \<open>clear()\<close> is idempotent,
  and a later \<open>getBuffer\<close> returns an empty buffer rather than failing. The first two
  hold (\<open>clear_empties\<close>). Evaluated here: a store that held two chunks and their clip
  is cleared. \<open>createClip()\<close> returns at once on the empty store and leaves \<open>clip\<close>
  \<open>null\<close>; \<open>getBuffer()\<close> then reads \<open>this.clip.length\<close>, and \<open>getBuffer(0, 0)\<close>, the
  call made for a selection that the viewer has reset, does the same. Both throw
  \<open>TypeError\<close>.
\<close>

theorem getBuffer_after_clear_throws:
  "snd (getBuffer (clear \<lparr>buffers = [[1, 2], [3, 4]], clip = Some [1, 2, 3, 4], recording = False\<rparr>) None None)
     = Inl TypeError
   \<and> snd (getBuffer (clear \<lparr>buffers = [[1, 2], [3, 4]], clip = Some [1, 2, 3, 4], recording = False\<rparr>)
          (Some 0) (Some 0))
     = Inl TypeError"
  by (simp add: getBuffer_def createClip_def clear_def)

section \<open>C4: the chunks of a recording, concatenated\<close>

text \<open>
  In a session where nothing reads the store between the appends the chunks come
  back concatenated. Chunks of one length \<open>L > 0\<close>, at least one and fewer than
  \<open>2 ^ 32\<close> samples in all, are appended by the \<open>onaudioprocess\<close> callback after
  \<open>record()\<close>. Then the total length \<open>buffers.length * buffers[0].length\<close> is the sum
  of the chunk lengths, \<open>getBuffer(0, totalLength)\<close> returns the chunks concatenated
  in order (and stores that as the clip), and for \<open>0 \<le> a < b \<le> totalLength\<close>,
  \<open>getBuffer(a, b)\<close> returns the \<open>b - a\<close> samples of the concatenation from position
  \<open>a\<close>, across chunk boundaries.
\<close>

lemma fresh_chunks_concat:
  assumes "chunks \<noteq> []" and "\<forall>c \<in> set chunks. length c = L" and "0 < L"
    and "int (length chunks * L) < frames_limit"
  shows "let r = foldl onaudioprocess (record_start r0) chunks;
             n = length (buffers r) * length (hd (buffers r))
         in n = sum_list (map length chunks)
            \<and> getBuffer r (Some 0) (Some (int n)) = (r\<lparr>clip := Some (concat chunks)\<rparr>, Inr (concat chunks))
            \<and> (\<forall>a b. 0 \<le> a \<and> a < b \<and> b \<le> int n \<longrightarrow>
                 snd (getBuffer r (Some a) (Some b)) = Inr (take (nat (b - a)) (drop (nat a) (concat chunks))))"
proof -
  define r where "r = foldl onaudioprocess (record_start r0) chunks"
  have bs: "buffers r = chunks"
    by (simp add: r_def foldl_onaudioprocess_buffers record_start_def clear_def)
  have cl: "clip r = None"
    by (simp add: r_def foldl_onaudioprocess_clip record_start_def clear_def)
  have hdL: "length (hd chunks) = L" using assms(1,2) by (cases chunks) auto
  have len: "length (concat chunks) = length chunks * L"
    using assms(2) by (rule length_concat_uniform)
  have pos: "0 < length chunks * L" using assms(1,3) by simp
  have ne: "buffers r \<noteq> []" and un: "\<forall>c \<in> set (buffers r). length c = L"
    and lim: "int (length (buffers r) * L) < frames_limit"
    using assms bs by simp_all
  have range: "getBuffer r (Some a) (Some b)
                 = (r\<lparr>clip := Some (concat chunks)\<rparr>, Inr (take (nat (b - a)) (drop (nat a) (concat chunks))))"
    if "0 \<le> a" "a < b" "b \<le> int (length chunks * L)" for a b
  proof -
    have b0: "b \<noteq> 0" using that by simp
    have small: "b - a < frames_limit" using that assms(4) by linarith
    have sl: "slice (concat chunks) a b = take (nat (b - a)) (drop (nat a) (concat chunks))"
      using that len by (intro slice_in_range) simp_all
    have ll: "length (take (nat (b - a)) (drop (nat a) (concat chunks))) = nat (b - a)"
      using that len by (simp del: of_nat_mult)
    have "getBuffer r (Some a) (Some b) =
         (r\<lparr>clip := Some (concat (buffers r))\<rparr>,
          Inr (copyToChannel (replicate (nat (b - a)) 0) (slice (concat (buffers r)) a b) 0))"
      using getBuffer_fresh [OF ne un assms(3) lim cl, of b b a] b0 that small by simp
    then show ?thesis
      using sl ll bs copyToChannel_full [OF ll] by simp
  qed
  have total: "length chunks * L = sum_list (map length chunks)"
    using sum_list_length_uniform [OF assms(2)] by simp
  have full: "getBuffer r (Some 0) (Some (int (length chunks * L)))
               = (r\<lparr>clip := Some (concat chunks)\<rparr>, Inr (concat chunks))"
    using range [of 0 "int (length chunks * L)"] pos len by (simp del: of_nat_mult)
  show ?thesis
    unfolding Let_def r_def [symmetric] bs hdL
    using total full range by simp
qed

lemma fresh_chunks_concat_example:
  "snd (getBuffer (foldl onaudioprocess (record_start new_recorder)
          [replicate 128 1, replicate 128 2, replicate 128 3]) (Some 64) (Some 192))
     = Inr (replicate 64 1 @ replicate 64 2)
   \<and> sum_list (map length [replicate 128 (1::real), replicate 128 2, replicate 128 3]) = 384"
proof -
  let ?cs = "[replicate 128 (1::real), replicate 128 2, replicate 128 3]"
  have bs: "buffers (foldl onaudioprocess (record_start new_recorder) ?cs) = ?cs"
    by (simp add: onaudioprocess_def record_start_def clear_def new_recorder_def)
  have h: "?cs \<noteq> []" "\<forall>c \<in> set ?cs. length c = 128" "(0::nat) < 128"
    "int (length ?cs * 128) < frames_limit"
    by (simp_all add: frames_limit_def)
  have "snd (getBuffer (foldl onaudioprocess (record_start new_recorder) ?cs) (Some 64) (Some 192))
          = Inr (take (nat (192 - 64)) (drop (nat 64) (concat ?cs)))"
    using fresh_chunks_concat [OF h, of new_recorder] unfolding Let_def bs by simp
  then show ?thesis by simp
qed

text \<open>
  C4. The claim: for every sequence of appended chunks of one length,
  \<open>getBuffer(0, totalLength)\<close> is the chunks concatenated in order. Evaluated here:
  recording starts, the chunk \<open>[1, 2]\<close> arrives, \<open>getBuffer()\<close> creates the clip, the
  chunk \<open>[3, 4]\<close> arrives. The store holds \<open>[1, 2]\<close> and \<open>[3, 4]\<close>, the total length
  is 4 and the concatenation is \<open>[1, 2, 3, 4]\<close>, but \<open>getBuffer(0, 4)\<close> reads the
  clip made before the second append and returns \<open>[1, 2, 0, 0]\<close>. With no chunk
  appended at all, \<open>getBuffer(0, 0)\<close> throws \<open>TypeError\<close>.
\<close>

theorem read_between_appends_breaks_concat:
  "buffers (onaudioprocess (fst (getBuffer (onaudioprocess (record_start new_recorder) [1, 2]) None None)) [3, 4])
     = [[1, 2], [3, 4]]
   \<and> concat (buffers (onaudioprocess (fst (getBuffer (onaudioprocess (record_start new_recorder) [1, 2]) None None)) [3, 4]))
     = [1, 2, 3, 4]
   \<and> snd (getBuffer (onaudioprocess (fst (getBuffer (onaudioprocess (record_start new_recorder) [1, 2]) None None)) [3, 4])
          (Some 0) (Some 4))
     = Inr [1, 2, 0, 0]
   \<and> snd (getBuffer (record_start new_recorder) (Some 0) (Some 0)) = Inl TypeError"
proof -
  have r1: "fst (getBuffer (onaudioprocess (record_start new_recorder) [1, 2]) None None)
              = \<lparr>buffers = [[1, 2]], clip = Some [1, 2], recording = True\<rparr>"
    by (simp add: getBuffer_def createClip_def createBuffer_def frames_limit_def copyToChannel_def
        slice_def onaudioprocess_def record_start_def clear_def stop_def new_recorder_def)
  have r2: "onaudioprocess \<lparr>buffers = [[1, 2]], clip = Some [1, 2], recording = True\<rparr> [3, 4]
              = \<lparr>buffers = [[1, 2], [3, 4]], clip = Some [1, 2], recording = True\<rparr>"
    by (simp add: onaudioprocess_def)
  have g: "snd (getBuffer \<lparr>buffers = [[1, 2], [3, 4]], clip = Some [1, 2], recording = True\<rparr> (Some 0) (Some 4))
             = Inr [1, 2, 0, 0]"
    by (simp add: getBuffer_def createBuffer_def frames_limit_def copyToChannel_def slice_def
        numeral_eq_Suc)
  have e: "snd (getBuffer (record_start new_recorder) (Some 0) (Some 0)) = Inl TypeError"
    by (simp add: getBuffer_def createClip_def record_start_def clear_def new_recorder_def)
  show ?thesis
    unfolding r1 r2 using g e by simp
qed


section \<open>C5: the selection dragged back across its anchor\<close>

text \<open>
  C5, as stated. The claim says that after a drag from sample 500 to 800, a move to 100 yields the
  selection \<open>{start: 100, end: 500}\<close>. The viewer shows samples from 0 at half a
  pixel per sample, so the pointer offsets 250, 400 and 50 are the samples 500, 800 and
  100. A move to 100 during the drag leaves \<open>end\<close> at 800 and the emitted selection is
  \<open>{start: 100, end: 800}\<close>; a move after \<open>mouseup\<close> changes nothing and the
  selection stays \<open>{start: 500, end: 800}\<close>.
\<close>

theorem drag_end_not_reanchored:
  "snd (mouseup (mousemove (mousemove (mousedown
      \<lparr>bufLen = 1000, view_end = 1000, scale = 1 / 2, lockWave = True,
       selection = \<lparr>sel_start = 0, sel_end = 0\<rparr>, dragging = False, timeSliderValue = 50\<rparr>
      250) 400) 50))
     = \<lparr>sel_start = 100, sel_end = 800\<rparr>
   \<and> snd (mouseup (mousemove (fst (mouseup (mousemove (mousedown
      \<lparr>bufLen = 1000, view_end = 1000, scale = 1 / 2, lockWave = True,
       selection = \<lparr>sel_start = 0, sel_end = 0\<rparr>, dragging = False, timeSliderValue = 50\<rparr>
      250) 400))) 50))
     = \<lparr>sel_start = 500, sel_end = 800\<rparr>"
  by (simp add: mouseup_def mousemove_def mousedown_def sample_at_def start_def cv_width_def Let_def)

text \<open>
  C5, amended. The scale is positive. \<open>mousedown\<close> at sample \<open>i0\<close>, then \<open>mousemove\<close> to a later sample
  \<open>i1\<close>, then \<open>mouseup\<close> emits \<open>{start: i0, end: i1}\<close>. A further \<open>mousemove\<close> of
  the same drag to a sample \<open>i2\<close> at or before \<open>i0\<close> moves \<open>start\<close> to \<open>i2\<close> and
  keeps \<open>end\<close> at \<open>i1\<close>: the emitted selection is \<open>{start: i2, end: i1}\<close>. After
  \<open>mouseup\<close> a \<open>mousemove\<close> changes nothing.
\<close>

theorem drag_selection:
  assumes "0 < scale v"
    and "sample_at v x0 < sample_at v x1" and "sample_at v x2 \<le> sample_at v x0"
  shows "snd (mouseup (mousemove (mousedown v x0) x1))
           = \<lparr>sel_start = sample_at v x0, sel_end = sample_at v x1\<rparr>
         \<and> snd (mouseup (mousemove (mousemove (mousedown v x0) x1) x2))
           = \<lparr>sel_start = sample_at v x2, sel_end = sample_at v x1\<rparr>
         \<and> mousemove (fst (mouseup (mousemove (mousedown v x0) x1))) x2
           = fst (mouseup (mousemove (mousedown v x0) x1))"
proof -
  have s: "sample_at (mousemove (mousedown v x0) x1) x2 = sample_at v x2"
    by (simp add: sample_at_def start_def mousemove_def mousedown_def Let_def)
  have d: "mousemove (mousedown v x0) x1
             = (mousedown v x0)\<lparr>selection := \<lparr>sel_start = sample_at v x0, sel_end = sample_at v x1\<rparr>\<rparr>"
    using assms(2) by (simp add: mousemove_def Let_def) (simp add: mousedown_def)
  show ?thesis
    unfolding d using assms(3) s [unfolded d]
    by (simp add: mouseup_def mousemove_def Let_def) (simp add: mousedown_def)
qed

theorem drag_selection_witness:
  "snd (mouseup (mousemove (mousedown
      \<lparr>bufLen = 1000, view_end = 1000, scale = 1 / 2, lockWave = True,
       selection = \<lparr>sel_start = 0, sel_end = 0\<rparr>, dragging = False, timeSliderValue = 50\<rparr>
      250) 400))
     = \<lparr>sel_start = 500, sel_end = 800\<rparr>
   \<and> snd (mouseup (mousemove (mousemove (mousedown
      \<lparr>bufLen = 1000, view_end = 1000, scale = 1 / 2, lockWave = True,
       selection = \<lparr>sel_start = 0, sel_end = 0\<rparr>, dragging = False, timeSliderValue = 50\<rparr>
      250) 400) 50))
     = \<lparr>sel_start = 100, sel_end = 800\<rparr>"
proof -
  let ?v = "\<lparr>bufLen = 1000, view_end = 1000, scale = 1 / 2, lockWave = True,
       selection = \<lparr>sel_start = 0, sel_end = 0\<rparr>, dragging = False, timeSliderValue = 50\<rparr>"
  have s: "sample_at ?v 250 = 500" "sample_at ?v 400 = 800" "sample_at ?v 50 = 100"
    by (simp_all add: sample_at_def start_def cv_width_def)
  have p: "0 < scale ?v" by simp
  have h: "sample_at ?v 250 < sample_at ?v 400" "sample_at ?v 50 \<le> sample_at ?v 250"
    by (simp_all only: s)
  show ?thesis
    using drag_selection [OF p h] by (simp only: s)
qed

section \<open>C6: the lower bound of end in zoom\<close>

text \<open>
  C6. The claim: after \<open>zoom(delta)\<close> the new \<open>end\<close> is clamped from below by
  \<open>minEnd\<close> computed with the new scale. \<open>zoom\<close> assigns \<open>this.scale\<close> and then
  computes \<open>minEnd\<close> from the local \<open>scale\<close> read before the assignment, where
  \<open>skip\<close> uses the scale in force. Evaluated here: 10240 samples, \<open>scale = 16\<close>,
  \<open>end = 32\<close>, not recording, \<open>zoom(-1)\<close>. The new scale is \<open>1600 / 101\<close>, a frame is
  then \<open>512 / scale = 32.32\<close> samples wide, and \<open>end\<close> stays 32 where the
  specification's formula gives \<open>808 / 25 = 32.32\<close>. The scale itself is clamped as
  claimed (\<open>zoom_scale\<close>), and the window stays within the data (\<open>zoom_window\<close>).
\<close>

theorem zoom_minEnd_from_old_scale:
  "scale (zoom \<lparr>bufLen = 10240, view_end = 32, scale = 16, lockWave = True,
       selection = \<lparr>sel_start = 0, sel_end = 0\<rparr>, dragging = False, timeSliderValue = 50\<rparr> False (- 1))
     = 1600 / 101
   \<and> view_end (zoom \<lparr>bufLen = 10240, view_end = 32, scale = 16, lockWave = True,
       selection = \<lparr>sel_start = 0, sel_end = 0\<rparr>, dragging = False, timeSliderValue = 50\<rparr> False (- 1))
     = 32
   \<and> spec_zoom_end \<lparr>bufLen = 10240, view_end = 32, scale = 16, lockWave = True,
       selection = \<lparr>sel_start = 0, sel_end = 0\<rparr>, dragging = False, timeSliderValue = 50\<rparr> (- 1)
     = 808 / 25"
proof -
  define v where "v = \<lparr>bufLen = 10240, view_end = 32, scale = 16, lockWave = True,
       selection = \<lparr>sel_start = 0, sel_end = 0\<rparr>, dragging = False, timeSliderValue = 50\<rparr>"
  have f: "bufLen v = 10240" "view_end v = 32" "scale v = 16"
    by (simp_all add: v_def)
  have sc: "clamp (scale v * (1.01 powr (- 1))) (1 / 256) 16 = 1600 / 101"
    by (simp add: f clamp_def powr_minus_one_101)
  have s0: "start v = 0"
    by (simp add: start_def f cv_width_def)
  have s1: "start (v\<lparr>scale := 1600 / 101\<rparr>) = 0"
    by (simp add: start_def f cv_width_def)
  have e_code: "clamp (of_int \<lfloor>view_end v - (0 - 0) / 2\<rfloor>) (min (cv_width / scale v) (bufLen v)) (bufLen v) = 32"
    by (simp add: f clamp_def cv_width_def)
  have e_spec: "clamp (of_int \<lfloor>view_end v - (0 - 0) / 2\<rfloor>) (min (cv_width / (1600 / 101)) (bufLen v)) (bufLen v) = 808 / 25"
    by (simp add: f clamp_def cv_width_def)
  have z: "zoom v False (- 1) = v\<lparr>scale := 1600 / 101, view_end := 32\<rparr>"
    unfolding zoom_def Let_def sc s0 s1 e_code by simp
  have sp: "spec_zoom_end v (- 1) = 808 / 25"
    unfolding spec_zoom_end_def Let_def sc s0 s1 e_spec by simp
  show ?thesis
    unfolding v_def [symmetric] z sp by simp
qed


section \<open>C7: following the live edge when the data grows\<close>

text \<open>
  C7, as stated. The claim says that with 1000 samples stored and \<open>end = 200\<close>, a new chunk of 50
  samples leaves \<open>end\<close> at 200. The test of \<open>update\<close> is
  \<open>abs(end - bufLen) < 64 / scale\<close>: at the initial scale \<open>0.003906252\<close> the
  distance 800 is below \<open>64 / scale\<close> and \<open>end\<close> becomes 1050.
\<close>

theorem update_snaps_when_zoomed_out:
  "view_end (update
      \<lparr>bufLen = 1000, view_end = 200, scale = 0.003906252, lockWave = True,
       selection = \<lparr>sel_start = 0, sel_end = 0\<rparr>, dragging = False, timeSliderValue = 50\<rparr>
      (Some (replicate 21 (replicate 50 0)))) = 1050"
  by (simp add: update_nonempty)

text \<open>
  C7, amended. For a viewer with a positive scale updated with a non-empty chunk list
  of total length \<open>n = buffers.length * buffers[0].length\<close>: \<open>bufLen\<close> becomes \<open>n\<close>,
  and \<open>end\<close> becomes \<open>n\<close> when \<open>abs(end - bufLen) < 64 / scale\<close> or \<open>bufLen > n\<close>, and
  is unchanged otherwise. With \<open>bufLen = 1000\<close> and \<open>n = 1050\<close>: from \<open>end = 1000\<close>
  the new \<open>end\<close> is 1050; from \<open>end = 200\<close> it stays 200 when \<open>64 / scale \<le> 800\<close>
  and is 1050 otherwise.
\<close>

theorem update_follow:
  assumes "0 < scale v" and "bs \<noteq> []"
  shows "let n = real (length bs * length (hd bs)); u = update v (Some bs)
         in bufLen u = n
            \<and> view_end u = (if \<bar>view_end v - bufLen v\<bar> < 64 / scale v \<or> n < bufLen v then n else view_end v)
            \<and> (bufLen v = 1000 \<and> n = 1050 \<and> view_end v = 1000 \<longrightarrow> view_end u = 1050)
            \<and> (bufLen v = 1000 \<and> n = 1050 \<and> view_end v = 200 \<longrightarrow>
                 view_end u = (if 64 / scale v \<le> 800 then 200 else 1050))"
  using assms by (auto simp: update_nonempty Let_def)

theorem update_follow_witness:
  "view_end (update
      \<lparr>bufLen = 1000, view_end = 1000, scale = 1, lockWave = True,
       selection = \<lparr>sel_start = 0, sel_end = 0\<rparr>, dragging = False, timeSliderValue = 50\<rparr>
      (Some (replicate 21 (replicate 50 0)))) = 1050
   \<and> view_end (update
      \<lparr>bufLen = 1000, view_end = 200, scale = 1, lockWave = True,
       selection = \<lparr>sel_start = 0, sel_end = 0\<rparr>, dragging = False, timeSliderValue = 50\<rparr>
      (Some (replicate 21 (replicate 50 0)))) = 200"
proof -
  let ?bs = "replicate 21 (replicate 50 (0::real))"
  let ?v = "\<lambda>e. \<lparr>bufLen = 1000, view_end = e, scale = 1, lockWave = True,
       selection = \<lparr>sel_start = 0, sel_end = 0\<rparr>, dragging = False, timeSliderValue = 50\<rparr>"
  have ne: "?bs \<noteq> []" by simp
  have a: "view_end (update (?v 1000) (Some ?bs)) = 1050"
    using update_follow [of "?v 1000" ?bs] ne by (simp add: Let_def)
  have b: "view_end (update (?v 200) (Some ?bs)) = 200"
    using update_follow [of "?v 200" ?bs] ne by (simp add: Let_def)
  from a b show ?thesis by simp
qed


section \<open>C8: the multiplier of the time-scale ruler\<close>

text \<open>
  C8, as stated. The claim says that \<open>mul\<close> is the largest power of ten, among all of them, with
  \<open>pps * mul \<le> viewportWidthPixels / 2\<close>. The loop starts at \<open>mul = 1\<close> and only
  divides. At a sample rate of 3000 and the scale \<open>1 / 256\<close> the bar is drawn with
  \<open>mul = 1\<close>, although \<open>mul = 10\<close> also fits in half the width.
\<close>

theorem renderScale_never_above_one:
  "map_option bar_w (renderScale 3000 (1 / 256)) = Some (3000 * (1 / 256) * 1)
   \<and> 3000 * (1 / 256) * 10 \<le> cv_width / 2"
proof -
  have "scale_mul (3000 * (1 / 256)) 1 = 1"
    by (subst scale_mul.simps) (simp add: cv_width_def)
  moreover have "label_mul 1 = Some 1"
    by (subst label_mul.simps) simp
  ultimately show ?thesis
    by (simp add: renderScale_def Let_def cv_width_def)
qed

text \<open>
  C8, amended. For every sample rate and scale, \<open>renderScale\<close> returns, and its bar
  has the length \<open>pps * mul\<close> with \<open>pps = sampleRate * scale\<close> and \<open>mul = 1 / 10 ^ k\<close>
  the largest among \<open>1, 0.1, 0.01, ...\<close> with \<open>pps * mul \<le> cv.width / 2\<close>: every
  earlier member of that sequence exceeds half the width.
\<close>

theorem renderScale_mul:
  "\<exists>k sb. renderScale sampleRate s = Some sb
      \<and> bar_w sb = sampleRate * s * (1 / 10 ^ k)
      \<and> sampleRate * s * (1 / 10 ^ k) \<le> cv_width / 2
      \<and> (\<forall>j<k. cv_width / 2 < sampleRate * s * (1 / 10 ^ j))"
proof -
  obtain k where
    k: "scale_mul (sampleRate * s) 1 = 1 / 10 ^ k"
       "sampleRate * s * (1 / 10 ^ k) \<le> cv_width / 2"
       "\<forall>j<k. cv_width / 2 < sampleRate * s * (1 / 10 ^ j)"
    using scale_mul_char [of "sampleRate * s" 1] by blast
  have "0 < (1::real) / 10 ^ k" by simp
  then obtain m where m: "label_mul (1 / 10 ^ k) = Some m"
    using label_mul_returns by blast
  obtain sb where sb: "renderScale sampleRate s = Some sb" "bar_w sb = sampleRate * s * (1 / 10 ^ k)"
    using k(1) m by (simp add: renderScale_def Let_def)
  with k(2,3) show ?thesis by blast
qed

theorem renderScale_mul_witness:
  "map_option bar_w (renderScale 44100 1) = Some (44100 * 1 * (1 / 10 ^ 3))"
proof -
  obtain k sb where
    r: "renderScale 44100 1 = Some sb" "bar_w sb = 44100 * 1 * (1 / 10 ^ k)"
    and le: "44100 * 1 * (1 / 10 ^ k) \<le> cv_width / 2"
    and gt: "\<forall>j<k. cv_width / 2 < 44100 * 1 * (1 / 10 ^ j)"
    using renderScale_mul [of 44100 1] by blast
  have "\<not> 3 < k"
  proof
    assume "3 < k"
    then have "cv_width / 2 < 44100 * 1 * (1 / 10 ^ 3)" using gt by blast
    then show False by (simp add: cv_width_def)
  qed
  moreover have "\<not> k < 3"
  proof
    assume "k < 3"
    then have "k = 0 \<or> k = 1 \<or> k = 2" by arith
    then show False using le by (auto simp: cv_width_def)
  qed
  ultimately have "k = 3" by arith
  then show ?thesis using r by simp
qed


section \<open>C9: the sample lookup of render\<close>

text \<open>
  C9. The chunk list is not empty (\<open>render\<close> returns before the lookup otherwise) and
  every chunk has the length of the first. Then \<open>getData(i)\<close> returns \<open>0\<close> for every
  number \<open>i\<close> below \<open>0\<close> or at or past the total length, whole or fractional: it
  neither throws nor yields \<open>undefined\<close>. For a whole index within the data it
  returns the stored sample \<open>buffers[i div L][i mod L]\<close>.
\<close>

theorem getData_total:
  assumes "bs \<noteq> []" and "\<forall>b \<in> set bs. length b = length (hd bs)"
  shows "(\<forall>i. i < 0 \<or> real (length bs * length (hd bs)) \<le> i \<longrightarrow> getData bs i = Inr (Some 0))
         \<and> (\<forall>n. n < length bs * length (hd bs) \<longrightarrow>
               getData bs (real n) = Inr (Some (bs ! (n div length (hd bs)) ! (n mod length (hd bs)))))"
  using getData_outside_aux [OF assms(1)] getData_inside_aux [OF assms] by blast

theorem getData_total_witness:
  "getData [[1, 2], [3, 4]] (- 1) = Inr (Some 0)
   \<and> getData [[1, 2], [3, 4]] 4 = Inr (Some 0)
   \<and> getData [[1, 2], [3, 4]] (9 / 2) = Inr (Some 0)
   \<and> getData [[1, 2], [3, 4]] (real 3) = Inr (Some 4)"
proof -
  let ?bs = "[[1, 2], [3, 4 :: real]]"
  have h: "?bs \<noteq> []" "\<forall>b \<in> set ?bs. length b = length (hd ?bs)" by simp_all
  have a: "\<forall>i. i < 0 \<or> real (length ?bs * length (hd ?bs)) \<le> i \<longrightarrow> getData ?bs i = Inr (Some 0)"
    and b: "\<forall>n. n < length ?bs * length (hd ?bs) \<longrightarrow>
               getData ?bs (real n) = Inr (Some (?bs ! (n div length (hd ?bs)) ! (n mod length (hd ?bs))))"
    using getData_total [OF h] by blast+
  have "getData ?bs (- 1) = Inr (Some 0)" using a by simp
  moreover have "getData ?bs 4 = Inr (Some 0)" using a by simp
  moreover have "getData ?bs (9 / 2) = Inr (Some 0)" using a by simp
  moreover have "getData ?bs (real 3) = Inr (Some 4)"
  proof -
    have l: "length (hd ?bs) = 2" "length ?bs = 2" by simp_all
    show ?thesis using b [rule_format, of 3, unfolded l] by simp
  qed
  ultimately show ?thesis by simp
qed


section \<open>C10: the viewer updated with no chunks\<close>

text \<open>
  C10. \<open>update\<close> with an absent or empty chunk list sets \<open>selection.start\<close>,
  \<open>selection.end\<close>, \<open>bufLen\<close> and \<open>end\<close> to \<open>0\<close> and leaves \<open>scale\<close>, \<open>lockWave\<close>
  and the other fields as they were.
\<close>

theorem update_empty_resets:
  "(let u = update v None
    in sel_start (selection u) = 0 \<and> sel_end (selection u) = 0 \<and> bufLen u = 0 \<and> view_end u = 0
       \<and> scale u = scale v \<and> lockWave u = lockWave v \<and> dragging u = dragging v
       \<and> timeSliderValue u = timeSliderValue v)
   \<and> update v (Some []) = update v None"
  by (simp add: update_def reset_view_def)

end
